theory Spec2Isabelle
  imports Main "HOL-Library.Sublist"
begin

section \<open>Python values the segment command works on\<close>

text \<open>
  The exceptions the modelled code can raise. Every indexing step of the source that can
  leave its range is a branch returning \<open>Inl IndexError\<close>; reading an attribute of
  \<open>None\<close> is \<open>Inl AttributeError\<close>; a missing tag is \<open>Inl KeyError\<close>;
  \<open>MalformedToken\<close> stands for the exception of a segment token that does not decode.
\<close>

datatype py_error = IndexError | KeyError | AttributeError | MalformedToken

text \<open>\<open>xs[i]\<close>: a negative index counts from the end, an index out of range raises.\<close>

definition py_index :: "'a list \<Rightarrow> int \<Rightarrow> py_error + 'a" where
  "py_index xs i =
     (if 0 \<le> i \<and> i < int (length xs) then Inr (xs ! nat i)
      else if i < 0 \<and> - int (length xs) \<le> i then Inr (xs ! nat (int (length xs) + i))
      else Inl IndexError)"

text \<open>\<open>xs[a:b]\<close>: negative bounds count from the end, both bounds are clipped, never raises.\<close>

definition py_slice :: "'a list \<Rightarrow> int \<Rightarrow> int \<Rightarrow> 'a list" where
  "py_slice xs a b =
     (let n = int (length xs);
          lo = (if a < 0 then max 0 (n + a) else min a n);
          hi = (if b < 0 then max 0 (n + b) else min b n)
      in take (nat (hi - lo)) (drop (nat lo) xs))"

text \<open>\<open>str(i)\<close> of an integer, as an f-string formats it.\<close>

fun str_nat :: "nat \<Rightarrow> string" where
  "str_nat n =
     (if n < 10 then [''0123456789'' ! n]
      else str_nat (n div 10) @ [''0123456789'' ! (n mod 10)])"

definition str_int :: "int \<Rightarrow> string" where
  "str_int i = (if i < 0 then CHR ''-'' # str_nat (nat (- i)) else str_nat (nat i))"

text \<open>\<open>sep.join(xs)\<close> and \<open>s.split(c)\<close> for a one-character separator.\<close>

fun join :: "string \<Rightarrow> string list \<Rightarrow> string" where
  "join sep [] = []"
| "join sep [x] = x"
| "join sep (x # y # ys) = x @ sep @ join sep (y # ys)"

fun split :: "char \<Rightarrow> string \<Rightarrow> string list" where
  "split c [] = [[]]"
| "split c (x # xs) =
     (if x = c then [] # split c xs
      else (case split c xs of w # ws \<Rightarrow> (x # w) # ws | [] \<Rightarrow> [[x]]))"

text \<open>
  \<open>SegmentInfo\<close> (imported from the annotate command): a named tuple of a label and the
  inclusive, 0-based coordinates of the segment in the read. Its field \<open>end\<close> is
  written \<open>end'\<close> here.
\<close>

record SegmentInfo =
  name :: string
  start :: int
  end' :: int

text \<open>
  The fields of a \<open>pysam.AlignedSegment\<close> that the command reads or sets. Tag values are
  the strings the annotation side channel holds; tag names are unique within a record.
\<close>

record AlignedSegment =
  query_name :: string
  query_sequence :: string
  query_qualities :: "nat list"
  tags :: "(string \<times> string) list"
  flag :: int
  mapping_quality :: int

text \<open>
  pysam derives \<open>query_alignment_qualities\<close> from the qualities by dropping soft-clipped
  ends; the records of this command carry no alignment, so it is the whole array.
\<close>

definition query_alignment_qualities :: "AlignedSegment \<Rightarrow> nat list" where
  "query_alignment_qualities read = query_qualities read"

text \<open>\<open>read.get_tag(k)\<close> raises \<open>KeyError\<close> when the record has no tag \<open>k\<close>.\<close>

definition get_tag :: "AlignedSegment \<Rightarrow> string \<Rightarrow> py_error + string" where
  "get_tag read k = (case map_of (tags read) k of None \<Rightarrow> Inl KeyError | Some v \<Rightarrow> Inr v)"

text \<open>\<open>a.set_tag(k, v)\<close> removes an existing tag \<open>k\<close> and appends the new one.\<close>

definition set_tag :: "string \<Rightarrow> string \<Rightarrow> (string \<times> string) list \<Rightarrow> (string \<times> string) list" where
  "set_tag k v ts = filter (\<lambda>kv. fst kv \<noteq> k) ts @ [(k, v)]"

section \<open>The array element writer\<close>

text \<open>
  \<open>_write_split_array_element\<close>. The output file \<open>bam_out\<close> is the list of records
  written so far, returned with the new record appended. \<open>to_tag\<close> (a method of
  \<open>SegmentInfo\<close>) and \<open>SEGMENTS_TAG\<close> live in the annotate command and are parameters.
\<close>

definition write_split_array_element ::
  "(SegmentInfo \<Rightarrow> string) \<Rightarrow> string \<Rightarrow> AlignedSegment list \<Rightarrow> int \<Rightarrow> int \<Rightarrow> int \<Rightarrow> int
     \<Rightarrow> AlignedSegment \<Rightarrow> SegmentInfo list \<Rightarrow> string \<Rightarrow> string \<Rightarrow> AlignedSegment list" where
  "write_split_array_element to_tag SEGMENTS_TAG bam_out start_coord end_coord
       seg_start_coord seg_end_coord read segments delim_name prev_delim_name =
     (let a = \<lparr>
        query_name = query_name read @ ''_'' @ str_int start_coord @ ''-'' @ str_int end_coord
                       @ ''_'' @ prev_delim_name @ ''-'' @ delim_name,
        query_sequence = py_slice (query_sequence read) start_coord (end_coord + 1),
        query_qualities = py_slice (query_alignment_qualities read) start_coord (end_coord + 1),
        tags = set_tag SEGMENTS_TAG
                 (join '','' (map to_tag
                    (filter (\<lambda>s. seg_start_coord \<le> start s \<and> start s \<le> seg_end_coord) segments)))
                 (tags read),
        flag = 4,
        mapping_quality = 255 \<rparr>
      in bam_out @ [a])"

text \<open>
  The arguments of one call of the writer from the splitting loops: the span to emit,
  the span that filters the segments, the segment list and the two delimiter names.
\<close>

record element_call =
  call_start_coord :: int
  call_end_coord :: int
  call_seg_start_coord :: int
  call_seg_end_coord :: int
  call_segments :: "SegmentInfo list"
  call_delim_name :: string
  call_prev_delim_name :: string

definition write_call ::
  "(SegmentInfo \<Rightarrow> string) \<Rightarrow> string \<Rightarrow> AlignedSegment \<Rightarrow> AlignedSegment list \<Rightarrow> element_call
     \<Rightarrow> AlignedSegment list" where
  "write_call to_tag SEGMENTS_TAG read bam_out c =
     write_split_array_element to_tag SEGMENTS_TAG bam_out (call_start_coord c) (call_end_coord c)
       (call_seg_start_coord c) (call_seg_end_coord c) read (call_segments c)
       (call_delim_name c) (call_prev_delim_name c)"

section \<open>Simple splitting\<close>

text \<open>
  The delimiter windows of \<open>_write_segmented_read\<close> in simple mode, built from
  \<open>array_element_structure\<close> (a constant of the model module, a parameter here): the last
  two labels of the first element, extended by the first two labels of the second
  element, then the first two labels of every later element. \<open>array_element_structure[0]\<close>
  raises on an empty structure.
\<close>

definition simple_delimiters :: "string list list \<Rightarrow> py_error + string list list" where
  "simple_delimiters array_element_structure =
     (case py_index array_element_structure 0 of
        Inl e \<Rightarrow> Inl e
      | Inr first \<Rightarrow>
          Inr (case py_slice array_element_structure 1 (int (length array_element_structure)) of
                 [] \<Rightarrow> [py_slice first (- 2) (int (length first))]
               | second # later \<Rightarrow>
                   (py_slice first (- 2) (int (length first)) @ py_slice second 0 2)
                     # map (\<lambda>structure. py_slice structure 0 2) later))"

text \<open>
  The state of the scan for one delimiter index \<open>i\<close>: the entries
  \<open>delimiter_match_matrix[i]\<close>, \<open>delimiter_start_segments[i]\<close> and
  \<open>delimiter_end_segment_tuples[i]\<close> of the three parallel lists. Iteration \<open>i\<close> of the
  inner loop reads and writes index \<open>i\<close> only, so the lists are held as one list of
  these records.
\<close>

record simple_state =
  match_index :: nat
  start_segment :: "SegmentInfo option"
  end_segment_tuple :: "(SegmentInfo option \<times> SegmentInfo) option"

definition simple_init :: simple_state where
  "simple_init = \<lparr>match_index = 0, start_segment = None, end_segment_tuple = None\<rparr>"

text \<open>
  The body of the inner loop for the delimiter \<open>d = delimiters[i]\<close>: \<open>d[dmi]\<close> out of
  range raises \<open>IndexError\<close>, which the loop catches and ignores.
\<close>

definition simple_match_seg :: "SegmentInfo \<Rightarrow> string list \<Rightarrow> simple_state \<Rightarrow> simple_state" where
  "simple_match_seg seg d st =
     (let dmi = match_index st in
      case py_index d (int dmi) of
        Inl e \<Rightarrow> st
      | Inr label \<Rightarrow>
          if name seg = label then
            let start_seg = (if match_index st = 0 then Some seg else start_segment st);
                matched = match_index st + 1
            in \<lparr>match_index = matched,
                start_segment = start_seg,
                end_segment_tuple =
                  (if matched = length d then Some (start_seg, seg) else end_segment_tuple st)\<rparr>
          else \<lparr>match_index = 0, start_segment = None, end_segment_tuple = None\<rparr>)"

definition simple_scan :: "string list list \<Rightarrow> SegmentInfo list \<Rightarrow> simple_state list" where
  "simple_scan delimiters segments =
     foldl (\<lambda>states seg. map2 (simple_match_seg seg) delimiters states)
       (map (\<lambda>_. simple_init) delimiters) segments"

text \<open>
  \<open>seg_delimiters\<close>: the delimiters whose end tuple is filled in, each with its index
  and start segment, in index order.
\<close>

definition seg_delimiters ::
  "simple_state list \<Rightarrow> (nat \<times> SegmentInfo option \<times> (SegmentInfo option \<times> SegmentInfo)) list" where
  "seg_delimiters states =
     List.map_filter
       (\<lambda>(delim_index, st).
          case end_segment_tuple st of
            None \<Rightarrow> None
          | Some end_tuple \<Rightarrow> Some (delim_index, start_segment st, end_tuple))
       (enumerate 0 states)"

text \<open>\<open>x.start\<close> for an \<open>x\<close> that may be \<open>None\<close>.\<close>

definition attr_start :: "SegmentInfo option \<Rightarrow> py_error + int" where
  "attr_start x = (case x of None \<Rightarrow> Inl AttributeError | Some s \<Rightarrow> Inr (start s))"

text \<open>
  The loop over the sorted \<open>seg_delimiters\<close> and the final element. The result is the
  list of writer calls made, and the exception that ended the loop when there is one.
\<close>

fun simple_emit ::
  "bool \<Rightarrow> string list list \<Rightarrow> SegmentInfo list \<Rightarrow> int \<Rightarrow> int \<Rightarrow> string
     \<Rightarrow> (nat \<times> SegmentInfo option \<times> (SegmentInfo option \<times> SegmentInfo)) list
     \<Rightarrow> element_call list \<times> py_error option" where
  "simple_emit keep_delimiters delimiters segments len cur_read_base_index prev_delim_name [] =
     ([\<lparr>call_start_coord = cur_read_base_index, call_end_coord = len - 1,
        call_seg_start_coord = cur_read_base_index, call_seg_end_coord = len - 1,
        call_segments = segments, call_delim_name = ''END'',
        call_prev_delim_name = prev_delim_name\<rparr>], None)"
| "simple_emit keep_delimiters delimiters segments len cur_read_base_index prev_delim_name
       ((di, start_seg, end_seg_tuple) # rest) =
     (let seg_start_coord = cur_read_base_index;
          seg_end_coord = end' (snd end_seg_tuple);
          delim_name = join ''/'' (delimiters ! di)
      in case (if keep_delimiters then Inr seg_end_coord
               else map_sum id (\<lambda>s. s - 1) (attr_start start_seg)) of
           Inl e \<Rightarrow> ([], Some e)
         | Inr end_coord \<Rightarrow>
             let c = \<lparr>call_start_coord = seg_start_coord, call_end_coord = end_coord,
                      call_seg_start_coord = seg_start_coord, call_seg_end_coord = seg_end_coord,
                      call_segments = segments, call_delim_name = delim_name,
                      call_prev_delim_name = prev_delim_name\<rparr>
             in case (if keep_delimiters then attr_start (fst end_seg_tuple)
                      else Inr (end' (snd end_seg_tuple) + 1)) of
                  Inl e \<Rightarrow> ([c], Some e)
                | Inr next_index \<Rightarrow>
                    (case simple_emit keep_delimiters delimiters segments len next_index
                            delim_name rest of
                       (cs, r) \<Rightarrow> (c # cs, r)))"

text \<open>
  The simple branch of \<open>_write_segmented_read\<close>: the writer calls and the return value
  \<open>len(seg_delimiters)\<close>. The sort key \<open>dtuple[1].start\<close> raises when a start segment is
  \<open>None\<close>, before anything is written; the sort is stable.
\<close>

definition simple_split ::
  "string list list \<Rightarrow> AlignedSegment \<Rightarrow> SegmentInfo list \<Rightarrow> bool
     \<Rightarrow> element_call list \<times> (py_error + int)" where
  "simple_split array_element_structure read segments keep_delimiters =
     (case simple_delimiters array_element_structure of
        Inl e \<Rightarrow> ([], Inl e)
      | Inr delimiters \<Rightarrow>
          let found = seg_delimiters (simple_scan delimiters segments) in
          if list_ex (\<lambda>(di, start_seg, end_seg_tuple). start_seg = None) found
          then ([], Inl AttributeError)
          else
            (case simple_emit keep_delimiters delimiters segments
                    (int (length (query_sequence read))) 0 ''START''
                    (sort_key (\<lambda>(di, start_seg, end_seg_tuple).
                                 case start_seg of Some s \<Rightarrow> start s | None \<Rightarrow> 0) found) of
               (calls, Some e) \<Rightarrow> (calls, Inl e)
             | (calls, None) \<Rightarrow> (calls, Inr (int (length found)))))"

section \<open>Bounded region splitting\<close>

text \<open>
  The state of the scan for one element of \<open>array_element_structure\<close>: the entries at
  its index of \<open>delimiter_match_matrix\<close>, \<open>delimiter_segments\<close>, \<open>delimiter_found\<close> and
  \<open>delimiter_score\<close>.
\<close>

record bounded_state =
  match_matrix :: nat
  delimiter_segments :: "SegmentInfo list"
  delimiter_found :: bool
  delimiter_score :: nat

definition bounded_init :: bounded_state where
  "bounded_init =
     \<lparr>match_matrix = 0, delimiter_segments = [], delimiter_found = False, delimiter_score = 0\<rparr>"

definition match_val :: nat where
  "match_val = 2"

definition indel_val :: nat where
  "indel_val = 1"

text \<open>
  The peek-ahead loop: the first \<open>peek_ahead\<close> in \<open>range(1, len(d) - dmi)\<close> with
  \<open>seg.name == d[dmi + peek_ahead]\<close>; every index it reads is below \<open>len(d)\<close>.
\<close>

definition peek :: "SegmentInfo \<Rightarrow> string list \<Rightarrow> nat \<Rightarrow> nat option" where
  "peek seg d dmi = find (\<lambda>peek_ahead. name seg = d ! (dmi + peek_ahead)) [1..<length d - dmi]"

text \<open>
  The body of the inner loop for the element \<open>d = delimiters[i]\<close>. \<open>d[dmi]\<close> out of
  range raises \<open>IndexError\<close>, and the handler marks the element as found.
\<close>

definition bounded_match_seg :: "SegmentInfo \<Rightarrow> string list \<Rightarrow> bounded_state \<Rightarrow> bounded_state" where
  "bounded_match_seg seg d st =
     (if delimiter_found st then st
      else
        let dmi = match_matrix st in
        case py_index d (int dmi) of
          Inl e \<Rightarrow> st\<lparr>delimiter_found := True\<rparr>
        | Inr label \<Rightarrow>
            let st1 =
              (if name seg = label then
                 st\<lparr>match_matrix := match_matrix st + 1,
                    delimiter_segments := delimiter_segments st @ [seg],
                    delimiter_score := delimiter_score st + match_val\<rparr>
               else
                 (case (if match_matrix st \<noteq> 0 then peek seg d dmi else None) of
                    Some peek_ahead \<Rightarrow>
                      st\<lparr>match_matrix := match_matrix st + (1 + peek_ahead),
                         delimiter_segments := delimiter_segments st @ [seg],
                         delimiter_score := delimiter_score st + indel_val\<rparr>
                  | None \<Rightarrow>
                      st\<lparr>match_matrix := 0, delimiter_segments := [], delimiter_score := 0\<rparr>))
            in if match_matrix st1 = length d then st1\<lparr>delimiter_found := True\<rparr> else st1)"

definition bounded_scan :: "string list list \<Rightarrow> SegmentInfo list \<Rightarrow> bounded_state list" where
  "bounded_scan delimiters segments =
     foldl (\<lambda>states seg. map2 (bounded_match_seg seg) delimiters states)
       (map (\<lambda>_. bounded_init) delimiters) segments"

text \<open>Sequencing of steps that may raise.\<close>

definition bind_error :: "py_error + 'a \<Rightarrow> ('a \<Rightarrow> py_error + 'b) \<Rightarrow> py_error + 'b" where
  "bind_error r f = (case r of Inl e \<Rightarrow> Inl e | Inr x \<Rightarrow> f x)"

text \<open>
  The body of the output loop for a found element with captured segments \<open>seg_list\<close>:
  the writer call, or the \<open>IndexError\<close> of \<open>seg_list[0]\<close>, \<open>seg_list[1]\<close>, \<open>seg_list[-2]\<close>.
\<close>

definition bounded_element :: "bool \<Rightarrow> SegmentInfo list \<Rightarrow> py_error + element_call" where
  "bounded_element keep_delimiters seg_list =
     bind_error (py_index seg_list 0) (\<lambda>start_seg.
     bind_error (py_index seg_list (- 1)) (\<lambda>end_seg.
     bind_error (if keep_delimiters then Inr (start start_seg)
                 else map_sum id start (py_index seg_list 1)) (\<lambda>start_coord.
     bind_error (if keep_delimiters then Inr (end' end_seg)
                 else map_sum id end' (py_index seg_list (- 2))) (\<lambda>end_coord.
     Inr \<lparr>call_start_coord = start_coord, call_end_coord = end_coord,
          call_seg_start_coord = start start_seg, call_seg_end_coord = end' end_seg,
          call_segments = seg_list, call_delim_name = name end_seg,
          call_prev_delim_name = name start_seg\<rparr>))))"

fun bounded_emit :: "bool \<Rightarrow> bounded_state list \<Rightarrow> element_call list \<times> py_error option" where
  "bounded_emit keep_delimiters [] = ([], None)"
| "bounded_emit keep_delimiters (st # rest) =
     (if delimiter_found st then
        (case bounded_element keep_delimiters (delimiter_segments st) of
           Inl e \<Rightarrow> ([], Some e)
         | Inr c \<Rightarrow>
             (case bounded_emit keep_delimiters rest of (cs, r) \<Rightarrow> (c # cs, r)))
      else bounded_emit keep_delimiters rest)"

text \<open>
  The bounded branch of \<open>_write_segmented_read\<close>: the writer calls and the return value
  \<open>sum(delimiter_found)\<close>.
\<close>

definition bounded_split ::
  "string list list \<Rightarrow> SegmentInfo list \<Rightarrow> bool \<Rightarrow> element_call list \<times> (py_error + int)" where
  "bounded_split array_element_structure segments keep_delimiters =
     (let states = bounded_scan array_element_structure segments in
      case bounded_emit keep_delimiters states of
        (calls, Some e) \<Rightarrow> (calls, Inl e)
      | (calls, None) \<Rightarrow> (calls, Inr (int (length (filter delimiter_found states)))))"

section \<open>Writing a segmented read, and the segment decoder\<close>

text \<open>
  \<open>_write_segmented_read\<close>: the output file after the calls of the writer, and the
  number returned or the exception raised. Records written before an exception stay
  written.
\<close>

definition write_segmented_read ::
  "(SegmentInfo \<Rightarrow> string) \<Rightarrow> string \<Rightarrow> string list list \<Rightarrow> AlignedSegment \<Rightarrow> SegmentInfo list
     \<Rightarrow> bool \<Rightarrow> bool \<Rightarrow> AlignedSegment list \<Rightarrow> AlignedSegment list \<times> (py_error + int)" where
  "write_segmented_read to_tag SEGMENTS_TAG array_element_structure read segments
       do_simple_splitting keep_delimiters bam_out =
     (case (if do_simple_splitting
            then simple_split array_element_structure read segments keep_delimiters
            else bounded_split array_element_structure segments keep_delimiters) of
        (calls, r) \<Rightarrow> (foldl (write_call to_tag SEGMENTS_TAG read) bam_out calls, r))"

text \<open>
  \<open>_get_segments\<close>: the serialised read and the segments decoded from the
  \<open>|\<close>-separated segments tag. \<open>SegmentInfo.from_tag\<close> and pysam's \<open>to_string\<close> are not
  part of this command and are parameters; \<open>from_tag\<close> may raise on a token.
\<close>

fun traverse :: "('a \<Rightarrow> py_error + 'b) \<Rightarrow> 'a list \<Rightarrow> py_error + 'b list" where
  "traverse f [] = Inr []"
| "traverse f (x # xs) =
     bind_error (f x) (\<lambda>y. bind_error (traverse f xs) (\<lambda>ys. Inr (y # ys)))"

definition get_segments ::
  "(string \<Rightarrow> py_error + SegmentInfo) \<Rightarrow> (AlignedSegment \<Rightarrow> string) \<Rightarrow> string \<Rightarrow> AlignedSegment
     \<Rightarrow> py_error + string \<times> SegmentInfo list" where
  "get_segments from_tag to_string SEGMENTS_TAG read =
     bind_error (get_tag read SEGMENTS_TAG) (\<lambda>tag.
     bind_error (traverse from_tag (split (CHR ''|'') tag)) (\<lambda>segments.
     Inr (to_string read, segments)))"

section \<open>Invariants and auxiliary notions\<close>

text \<open>
  What holds of the state of one delimiter \<open>d\<close> of the simple scan after the segments
  \<open>p\<close>: the counter stays within the window, a running match has its start segment,
  and a recorded end tuple belongs to a completed window, holds the start segment as its
  first component, and its two segments occur in \<open>p\<close> in this order (or are the same
  segment, for a window of one label).
\<close>

definition simple_inv :: "string list \<Rightarrow> SegmentInfo list \<Rightarrow> simple_state \<Rightarrow> bool" where
  "simple_inv d p st \<longleftrightarrow>
     match_index st \<le> length d \<and>
     (0 < match_index st \<longrightarrow> start_segment st \<noteq> None) \<and>
     (\<forall>s. start_segment st = Some s \<longrightarrow> s \<in> set p) \<and>
     (\<forall>t. end_segment_tuple st = Some t \<longrightarrow>
        match_index st = length d \<and> fst t = start_segment st \<and> snd t \<in> set p \<and>
        (\<exists>s. fst t = Some s \<and> (s = snd t \<or> subseq [s, snd t] p)))"


text \<open>The sort key \<open>dtuple[1].start\<close> of the boundaries.\<close>

abbreviation start_key ::
  "nat \<times> SegmentInfo option \<times> (SegmentInfo option \<times> SegmentInfo) \<Rightarrow> int" where
  "start_key \<equiv> (\<lambda>(di, start_seg, end_seg_tuple). case start_seg of Some s \<Rightarrow> start s | None \<Rightarrow> 0)"

text \<open>
  What holds of the state of one element template \<open>d\<close> of the bounded scan after the
  segments \<open>p\<close>: the counter stays within the template, a non-empty template is found
  exactly when the counter has reached its length, a counter of one has captured a
  segment and a larger one at least two, and the captured segments are a subsequence of
  \<open>p\<close>.
\<close>

definition bounded_inv :: "string list \<Rightarrow> SegmentInfo list \<Rightarrow> bounded_state \<Rightarrow> bool" where
  "bounded_inv d p st \<longleftrightarrow>
     match_matrix st \<le> length d \<and>
     (d \<noteq> [] \<longrightarrow> (delimiter_found st \<longleftrightarrow> match_matrix st = length d)) \<and>
     min (match_matrix st) 2 \<le> length (delimiter_segments st) \<and>
     subseq (delimiter_segments st) p"

text \<open>
  The writer call of the bounded output loop for captured segments \<open>seg_list\<close>, when
  there are \<open>enough\<close> of them for its index reads.
\<close>

definition bounded_call :: "bool \<Rightarrow> SegmentInfo list \<Rightarrow> element_call" where
  "bounded_call keep_delimiters seg_list =
     \<lparr>call_start_coord =
        (if keep_delimiters then start (hd seg_list) else start (seg_list ! 1)),
      call_end_coord =
        (if keep_delimiters then end' (last seg_list)
         else end' (seg_list ! (length seg_list - 2))),
      call_seg_start_coord = start (hd seg_list),
      call_seg_end_coord = end' (last seg_list),
      call_segments = seg_list,
      call_delim_name = name (last seg_list),
      call_prev_delim_name = name (hd seg_list)\<rparr>"

definition enough :: "bool \<Rightarrow> SegmentInfo list \<Rightarrow> bool" where
  "enough keep_delimiters seg_list \<longleftrightarrow> (if keep_delimiters then 1 else 2) \<le> length seg_list"

text \<open>The constructor \<open>SegmentInfo(name, start, end)\<close>, and a read used in the examples.\<close>

definition mk_segment :: "string \<Rightarrow> int \<Rightarrow> int \<Rightarrow> SegmentInfo" where
  "mk_segment n a b = \<lparr>name = n, start = a, end' = b\<rparr>"

definition example_read :: AlignedSegment where
  "example_read =
     \<lparr>query_name = ''r'', query_sequence = ''ACGTACGT'', query_qualities = [1, 2, 3, 4, 5, 6, 7, 8],
      tags = [(''SG'', ''A:0-1,B:2-4''), (''np'', ''7'')], flag = 0, mapping_quality = 0\<rparr>"

text \<open>
  The precondition the spec assumes of a read's segment list: every segment lies inside
  the read with \<open>start \<le> end\<close>, and the segments follow each other without overlap.
\<close>

definition well_formed_segments :: "AlignedSegment \<Rightarrow> SegmentInfo list \<Rightarrow> bool" where
  "well_formed_segments read segments \<longleftrightarrow>
     list_all (\<lambda>s. 0 \<le> start s \<and> start s \<le> end' s
                 \<and> end' s < int (length (query_sequence read))) segments
     \<and> sorted_wrt (\<lambda>a b. end' a < start b) segments"

text \<open>A writer call whose emitted span and filter span start at the same index.\<close>

definition plain_call :: "int \<Rightarrow> int \<Rightarrow> int \<Rightarrow> SegmentInfo list \<Rightarrow> string \<Rightarrow> string \<Rightarrow> element_call" where
  "plain_call a b e segs dn pdn =
     \<lparr>call_start_coord = a, call_end_coord = b, call_seg_start_coord = a,
      call_seg_end_coord = e, call_segments = segs, call_delim_name = dn,
      call_prev_delim_name = pdn\<rparr>"

text \<open>A segment list \<open>[A, B, x, x, Y, Z]\<close> on the example read.\<close>

definition example_segments6 :: "SegmentInfo list" where
  "example_segments6 =
     [mk_segment ''A'' 0 0, mk_segment ''B'' 1 1, mk_segment ''x'' 2 2, mk_segment ''x'' 3 4,
      mk_segment ''Y'' 5 5, mk_segment ''Z'' 6 6]"

text \<open>The coordinate containment the spec states for an emitted element.\<close>

definition contained :: "AlignedSegment \<Rightarrow> element_call \<Rightarrow> bool" where
  "contained read c \<longleftrightarrow>
     0 \<le> call_start_coord c \<and> call_start_coord c \<le> call_end_coord c
     \<and> call_end_coord c \<le> int (length (query_sequence read)) - 1"

text \<open>Decimal digits and the number they write.\<close>

definition is_digit :: "char \<Rightarrow> bool" where
  "is_digit c \<longleftrightarrow> c \<in> set ''0123456789''"

definition nat_of_digits :: "string \<Rightarrow> nat" where
  "nat_of_digits ds = foldl (\<lambda>n c. 10 * n + (of_char c - 48)) 0 ds"

text \<open>
  Modelled from the spec: \<open>SegmentInfo.from_tag\<close>, a method of the annotate command,
  which is not among the sources. The spec gives a token the shape \<open>label:start-end\<close>
  and says that malformed input raises; the type of the exception is not given.
\<close>

definition spec_from_tag :: "string \<Rightarrow> py_error + SegmentInfo" where
  "spec_from_tag tag_string =
     (case split (CHR '':'') tag_string of
        [label, coords] \<Rightarrow>
          (case split (CHR ''-'') coords of
             [a, b] \<Rightarrow>
               if a \<noteq> [] \<and> b \<noteq> [] \<and> list_all is_digit a \<and> list_all is_digit b
               then Inr \<lparr>name = label, start = int (nat_of_digits a), end' = int (nat_of_digits b)\<rparr>
               else Inl MalformedToken
           | _ \<Rightarrow> Inl MalformedToken)
      | _ \<Rightarrow> Inl MalformedToken)"

text \<open>The example read with the segments tag \<open>SG\<close> set to a given string.\<close>

definition tagged_read :: "string \<Rightarrow> AlignedSegment" where
  "tagged_read tag = example_read\<lparr>tags := [(''np'', ''7''), (''SG'', tag)]\<rparr>"

section \<open>Slices and tags\<close>


lemma length_py_slice_inclusive:
  assumes "0 \<le> a" and "a \<le> b + 1" and "b < int (length xs)"
  shows "int (length (py_slice xs a (b + 1))) = b - a + 1"
proof -
  have "nat (b + 1 - a) \<le> length xs - nat a"
    using assms by linarith
  then have "length (py_slice xs a (b + 1)) = nat (b + 1 - a)"
    using assms by (simp add: py_slice_def min_def)
  then show ?thesis using assms by simp
qed




section \<open>The scans, delimiter by delimiter\<close>

lemma map2_same: "map2 h xs (map g xs) = map (\<lambda>x. h x (g x)) xs"
  by (induction xs) simp_all

lemma foldl_map2_pointwise:
  "foldl (\<lambda>states x. map2 (f x) ds states) (map g ds) xs
     = map (\<lambda>d. foldl (\<lambda>st x. f x d st) (g d) xs) ds"
proof (induction xs arbitrary: g)
  case Nil
  show ?case by simp
next
  case (Cons x xs)
  have "foldl (\<lambda>states x. map2 (f x) ds states) (map g ds) (x # xs)
          = foldl (\<lambda>states x. map2 (f x) ds states) (map (\<lambda>d. f x d (g d)) ds) xs"
    by (simp add: map2_same)
  also have "\<dots> = map (\<lambda>d. foldl (\<lambda>st x. f x d st) (f x d (g d)) xs) ds"
    by (rule Cons.IH)
  finally show ?case by simp
qed

lemma simple_scan_pointwise:
  "simple_scan delimiters segments
     = map (\<lambda>d. foldl (\<lambda>st seg. simple_match_seg seg d st) simple_init segments) delimiters"
  unfolding simple_scan_def by (rule foldl_map2_pointwise)

lemma bounded_scan_pointwise:
  "bounded_scan delimiters segments
     = map (\<lambda>d. foldl (\<lambda>st seg. bounded_match_seg seg d st) bounded_init segments) delimiters"
  unfolding bounded_scan_def by (rule foldl_map2_pointwise)

lemma py_index_nat:
  "py_index xs (int i) = (if i < length xs then Inr (xs ! i) else Inl IndexError)"
  by (simp add: py_index_def)

lemma simple_match_seg_complete:
  "match_index st = length d \<Longrightarrow> simple_match_seg seg d st = st"
  by (simp add: simple_match_seg_def py_index_nat)

lemma simple_fold_complete:
  "match_index st = length d \<Longrightarrow> foldl (\<lambda>st seg. simple_match_seg seg d st) st segs = st"
  by (induction segs) (simp_all add: simple_match_seg_complete)

lemma bounded_match_seg_found:
  "delimiter_found st \<Longrightarrow> bounded_match_seg seg d st = st"
  by (simp add: bounded_match_seg_def)

lemma bounded_fold_found:
  "delimiter_found st \<Longrightarrow> foldl (\<lambda>st seg. bounded_match_seg seg d st) st segs = st"
  by (induction segs) (simp_all add: bounded_match_seg_found)

lemma simple_scan_append_complete:
  assumes "i < length delimiters"
    and "match_index (simple_scan delimiters xs ! i) = length (delimiters ! i)"
  shows "simple_scan delimiters (xs @ ys) ! i = simple_scan delimiters xs ! i"
  using assms by (simp add: simple_scan_pointwise simple_fold_complete)

lemma bounded_scan_append_found:
  assumes "i < length delimiters"
    and "delimiter_found (bounded_scan delimiters xs ! i)"
  shows "bounded_scan delimiters (xs @ ys) ! i = bounded_scan delimiters xs ! i"
  using assms by (simp add: bounded_scan_pointwise bounded_fold_found)

lemma subseq_pair_snoc: "s \<in> set p \<Longrightarrow> subseq [s, x] (p @ [x])"
proof -
  assume "s \<in> set p"
  then have "subseq [s] p" by (simp add: subseq_singleton_left)
  then have "subseq ([s] @ [x]) (p @ [x])" by (intro list_emb_append_mono) simp_all
  then show ?thesis by simp
qed

lemma simple_inv_init: "simple_inv d [] simple_init"
  by (simp add: simple_inv_def simple_init_def)

lemma simple_inv_step:
  assumes "simple_inv d p st"
  shows "simple_inv d (p @ [x]) (simple_match_seg x d st)"
proof (cases "match_index st < length d")
  case False
  with assms have "match_index st = length d" by (simp add: simple_inv_def)
  then have same: "simple_match_seg x d st = st" by (rule simple_match_seg_complete)
  have mono: "subseq [a, b] p \<Longrightarrow> subseq [a, b] (p @ [x])" for a b
    by (rule subseq_rev_drop_many)
  from assms show ?thesis
    unfolding same simple_inv_def using mono by fastforce
next
  case True
  note lt = this
  show ?thesis
  proof (cases "name x = d ! match_index st")
    case False
    with lt show ?thesis
      by (simp add: simple_match_seg_def py_index_nat simple_inv_def)
  next
    case True
    from assms lt have no_end: "end_segment_tuple st = None"
      by (cases "end_segment_tuple st") (auto simp: simple_inv_def)
    show ?thesis
    proof (cases "match_index st = 0")
      case True
      with \<open>name x = d ! match_index st\<close> lt no_end show ?thesis
        by (auto simp: simple_match_seg_def py_index_nat simple_inv_def Let_def Suc_le_eq)
    next
      case False
      with assms obtain s where s: "start_segment st = Some s" "s \<in> set p"
        by (auto simp: simple_inv_def)
      with False \<open>name x = d ! match_index st\<close> lt no_end show ?thesis
        by (auto simp: simple_match_seg_def py_index_nat simple_inv_def subseq_pair_snoc Let_def Suc_le_eq)
    qed
  qed
qed

lemma simple_inv_fold:
  "simple_inv d segs (foldl (\<lambda>st seg. simple_match_seg seg d st) simple_init segs)"
  by (induction segs rule: rev_induct) (simp_all add: simple_inv_init simple_inv_step)

lemma simple_scan_inv:
  "st \<in> set (simple_scan delimiters segs) \<Longrightarrow> \<exists>d \<in> set delimiters. simple_inv d segs st"
  using simple_inv_fold by (auto simp: simple_scan_pointwise)

lemma seg_delimiters_member:
  assumes "x \<in> set (seg_delimiters states)"
  shows "\<exists>i st t. x = (i, start_segment st, t) \<and> i < length states \<and> st = states ! i
            \<and> end_segment_tuple st = Some t"
  using assms
  by (auto simp: seg_delimiters_def map_filter_def in_set_enumerate_eq split: option.splits)




lemma found_entries_ok:
  assumes "x \<in> set (seg_delimiters (simple_scan ds segs))"
  shows "\<exists>di s e. x = (di, Some s, Some s, e) \<and> s \<in> set segs \<and> e \<in> set segs
           \<and> (s = e \<or> subseq [s, e] segs)"
proof -
  from seg_delimiters_member [OF assms] obtain i st t where
    x: "x = (i, start_segment st, t)" and i: "i < length (simple_scan ds segs)"
    and st: "st = simple_scan ds segs ! i" and t: "end_segment_tuple st = Some t"
    by blast
  from i st have "st \<in> set (simple_scan ds segs)" by simp
  then obtain d where "simple_inv d segs st" using simple_scan_inv by blast
  with t show ?thesis
    unfolding simple_inv_def x by (cases t) fastforce
qed



lemma write_call_snoc:
  "\<exists>a. write_call to_tag SEGMENTS_TAG read bam_out c = bam_out @ [a]
       \<and> query_sequence a
           = py_slice (query_sequence read) (call_start_coord c) (call_end_coord c + 1)"
  by (simp add: write_call_def write_split_array_element_def)

lemma foldl_write_call:
  "\<exists>recs. foldl (write_call to_tag SEGMENTS_TAG read) bam_out calls = bam_out @ recs
       \<and> map query_sequence recs
           = map (\<lambda>c. py_slice (query_sequence read) (call_start_coord c) (call_end_coord c + 1)) calls"
proof (induction calls arbitrary: bam_out)
  case Nil
  show ?case by simp
next
  case (Cons c calls)
  obtain a where a: "write_call to_tag SEGMENTS_TAG read bam_out c = bam_out @ [a]"
    "query_sequence a = py_slice (query_sequence read) (call_start_coord c) (call_end_coord c + 1)"
    using write_call_snoc by blast
  from Cons.IH [of "bam_out @ [a]"] obtain recs where
    "foldl (write_call to_tag SEGMENTS_TAG read) (bam_out @ [a]) calls = (bam_out @ [a]) @ recs"
    "map query_sequence recs
       = map (\<lambda>c. py_slice (query_sequence read) (call_start_coord c) (call_end_coord c + 1)) calls"
    by blast
  with a show ?case by (intro exI [of _ "a # recs"]) simp
qed

lemma peek_range: "peek seg d dmi = Some p \<Longrightarrow> 1 \<le> p \<and> dmi + p < length d \<and> name seg = d ! (dmi + p)"
  by (auto simp: peek_def find_Some_iff)

lemma bounded_inv_init: "bounded_inv d [] bounded_init"
  by (auto simp: bounded_inv_def bounded_init_def)

lemma bounded_inv_step:
  assumes "bounded_inv d p st"
  shows "bounded_inv d (p @ [x]) (bounded_match_seg x d st)"
proof (cases "delimiter_found st")
  case True
  then have "bounded_match_seg x d st = st" by (rule bounded_match_seg_found)
  with assms show ?thesis
    by (simp add: bounded_inv_def subseq_rev_drop_many)
next
  case False
  note nf = this
  show ?thesis
  proof (cases "match_matrix st < length d")
    case False
    with assms nf have "d = []" by (auto simp: bounded_inv_def)
    with assms nf show ?thesis
      by (simp add: bounded_match_seg_def py_index_nat bounded_inv_def subseq_rev_drop_many)
  next
    case True
    note lt = this
    from assms have sub: "subseq (delimiter_segments st @ [x]) (p @ [x])"
      by (simp add: bounded_inv_def)
    from assms have len: "min (match_matrix st) 2 \<le> length (delimiter_segments st)"
      by (simp add: bounded_inv_def)
    show ?thesis
    proof (cases "name x = d ! match_matrix st")
      case True
      with nf lt sub len show ?thesis
        by (auto simp: bounded_match_seg_def py_index_nat bounded_inv_def Let_def)
    next
      case False
      note ne = this
      show ?thesis
      proof (cases "if match_matrix st \<noteq> 0 then peek x d (match_matrix st) else None")
        case None
        with nf lt ne show ?thesis
          by (auto simp: bounded_match_seg_def py_index_nat bounded_inv_def Let_def)
      next
        case (Some pa)
        then have pos: "match_matrix st \<noteq> 0" and pk: "peek x d (match_matrix st) = Some pa"
          by (auto split: if_splits)
        from peek_range [OF pk] have rng: "1 \<le> pa" "match_matrix st + pa < length d"
          by simp_all
        from pos len have "1 \<le> length (delimiter_segments st)" by (simp add: min_def split: if_splits)
        with Some nf lt ne sub rng show ?thesis
          by (auto simp: bounded_match_seg_def py_index_nat bounded_inv_def Let_def)
      qed
    qed
  qed
qed

lemma bounded_inv_fold:
  "bounded_inv d segs (foldl (\<lambda>st seg. bounded_match_seg seg d st) bounded_init segs)"
  by (induction segs rule: rev_induct) (simp_all add: bounded_inv_init bounded_inv_step)

lemma bounded_scan_inv:
  "st \<in> set (bounded_scan delimiters segs) \<Longrightarrow> \<exists>d \<in> set delimiters. bounded_inv d segs st"
  using bounded_inv_fold by (auto simp: bounded_scan_pointwise)


lemma py_index_first: "xs \<noteq> [] \<Longrightarrow> py_index xs 0 = Inr (hd xs)"
  by (cases xs) (simp_all add: py_index_def)

lemma py_index_last: "xs \<noteq> [] \<Longrightarrow> py_index xs (- 1) = Inr (last xs)"
  by (cases xs) (simp_all add: py_index_def last_conv_nth nat_diff_distrib')

lemma py_index_second: "2 \<le> length xs \<Longrightarrow> py_index xs 1 = Inr (xs ! 1)"
  by (simp add: py_index_def)

lemma py_index_second_last: "2 \<le> length xs \<Longrightarrow> py_index xs (- 2) = Inr (xs ! (length xs - 2))"
  by (simp add: py_index_def nat_diff_distrib')

lemma py_index_empty: "py_index [] i = Inl IndexError"
  by (simp add: py_index_def)

lemma py_index_single_second: "py_index [x] 1 = Inl IndexError"
  by (simp add: py_index_def)

lemma bounded_element_enough:
  "enough keep seg_list \<Longrightarrow> bounded_element keep seg_list = Inr (bounded_call keep seg_list)"
proof -
  assume en: "enough keep seg_list"
  then have ne: "seg_list \<noteq> []" by (auto simp: enough_def split: if_splits)
  show ?thesis
  proof (cases keep)
    case True
    with ne show ?thesis
      by (simp add: bounded_element_def bounded_call_def bind_error_def py_index_first
            py_index_last)
  next
    case False
    with en have "2 \<le> length seg_list" by (simp add: enough_def)
    with ne False show ?thesis
      by (simp add: bounded_element_def bounded_call_def bind_error_def py_index_first
            py_index_last py_index_second py_index_second_last)
  qed
qed

lemma bounded_element_short:
  "\<not> enough keep seg_list \<Longrightarrow> bounded_element keep seg_list = Inl IndexError"
proof (cases seg_list)
  case Nil
  then show ?thesis by (simp add: bounded_element_def bind_error_def py_index_empty)
next
  case (Cons x xs)
  assume "\<not> enough keep seg_list"
  with Cons have "keep = False" "xs = []" by (cases xs; auto simp: enough_def split: if_splits)+
  with Cons show ?thesis
    by (simp add: bounded_element_def bind_error_def py_index_single_second py_index_first
          py_index_last)
qed



lemma bounded_emit_member:
  assumes "c \<in> set (fst (bounded_emit keep states))"
  shows "\<exists>st \<in> set states. delimiter_found st \<and> enough keep (delimiter_segments st)
           \<and> c = bounded_call keep (delimiter_segments st)"
  using assms
proof (induction states)
  case Nil
  then show ?case by simp
next
  case (Cons st states)
  show ?case
  proof (cases "delimiter_found st \<and> \<not> enough keep (delimiter_segments st)")
    case True
    with Cons.prems show ?thesis by (simp add: bounded_element_short)
  next
    case False
    with Cons show ?thesis
      by (cases "delimiter_found st")
         (auto simp: bounded_element_enough split: prod.splits)
  qed
qed

lemma sorted_wrt_subseq:
  assumes "subseq xs ys" and "sorted_wrt P ys"
  shows "sorted_wrt P xs"
  using assms
proof (induction rule: list_emb.induct)
  case (list_emb_Nil ys)
  show ?case by simp
next
  case (list_emb_Cons xs ys y)
  then show ?case by simp
next
  case (list_emb_Cons2 x y xs ys)
  have "t \<in> set ys" if "t \<in> set xs" for t
    using list_emb_set [OF \<open>subseq xs ys\<close> that] by auto
  with list_emb_Cons2 show ?case by auto
qed

section \<open>The two splitting functions\<close>

lemma simple_recorded_complete:
  assumes "i < length delimiters"
    and "end_segment_tuple (simple_scan delimiters xs ! i) \<noteq> None"
  shows "match_index (simple_scan delimiters xs ! i) = length (delimiters ! i)"
proof -
  have "simple_inv (delimiters ! i) xs (simple_scan delimiters xs ! i)"
    using assms(1) by (simp add: simple_scan_pointwise simple_inv_fold)
  with assms(2) show ?thesis by (auto simp: simple_inv_def)
qed

lemma write_segmented_read_records:
  "\<exists>recs. fst (write_segmented_read to_tag SEGMENTS_TAG array_element_structure read segments
               do_simple_splitting keep_delimiters bam_out) = bam_out @ recs
       \<and> map query_sequence recs
           = map (\<lambda>c. py_slice (query_sequence read) (call_start_coord c) (call_end_coord c + 1))
               (fst (if do_simple_splitting
                     then simple_split array_element_structure read segments keep_delimiters
                     else bounded_split array_element_structure segments keep_delimiters))"
  using foldl_write_call [of to_tag SEGMENTS_TAG read bam_out]
  by (auto simp: write_segmented_read_def split: prod.splits)


lemma well_formed_subseq:
  assumes "well_formed_segments read segments" and "subseq xs segments"
  shows "well_formed_segments read xs"
proof -
  from assms have "sorted_wrt (\<lambda>a b. end' a < start b) xs"
    by (auto simp: well_formed_segments_def intro: sorted_wrt_subseq)
  moreover have "t \<in> set segments" if "t \<in> set xs" for t
    using list_emb_set [OF assms(2) that] by auto
  ultimately show ?thesis
    using assms(1) by (auto simp: well_formed_segments_def list_all_iff)
qed

lemma bounded_captured_well_formed:
  assumes "st \<in> set (bounded_scan delimiters segments)"
    and "well_formed_segments read segments"
  shows "well_formed_segments read (delimiter_segments st)"
proof -
  from bounded_scan_inv [OF assms(1)] have "subseq (delimiter_segments st) segments"
    by (auto simp: bounded_inv_def)
  with assms(2) show ?thesis by (rule well_formed_subseq)
qed


lemma py_slice_last_two: "py_slice (t @ [a, b]) (- 2) (int (length (t @ [a, b]))) = [a, b]"
  by (simp add: py_slice_def)

lemma simple_delimiters_two:
  "simple_delimiters [t0 @ [a, b], y # z # t1] = Inr [[a, b, y, z]]"
proof -
  have "py_index [t0 @ [a, b], y # z # t1] 0 = Inr (t0 @ [a, b])"
    by (simp add: py_index_def)
  moreover have "py_slice [t0 @ [a, b], y # z # t1] 1 (int (length [t0 @ [a, b], y # z # t1]))
      = [y # z # t1]"
    by (simp add: py_slice_def)
  moreover have "py_slice (y # z # t1) 0 2 = [y, z]"
    by (simp add: py_slice_def)
  ultimately show ?thesis
    using py_slice_last_two [of t0 a b] by (simp add: simple_delimiters_def)
qed

section \<open>Containment and decoding\<close>

lemma well_formed_ends:
  assumes "well_formed_segments read xs" and "xs \<noteq> []"
  shows "0 \<le> start (hd xs) \<and> start (hd xs) \<le> end' (last xs)
           \<and> end' (last xs) < int (length (query_sequence read))"
proof (cases xs)
  case Nil
  with assms(2) show ?thesis by simp
next
  case (Cons x ys)
  show ?thesis
  proof (cases "ys = []")
    case True
    with Cons assms(1) show ?thesis by (simp add: well_formed_segments_def)
  next
    case False
    then have mem: "last ys \<in> set ys" by simp
    from Cons assms(1) have x: "0 \<le> start x" "start x \<le> end' x"
      and after: "\<forall>y \<in> set ys. end' x < start y"
      and rng: "\<forall>y \<in> set ys. start y \<le> end' y \<and> end' y < int (length (query_sequence read))"
      by (auto simp: well_formed_segments_def list_all_iff)
    from mem after rng have "end' x < start (last ys)" "start (last ys) \<le> end' (last ys)"
      "end' (last ys) < int (length (query_sequence read))"
      by simp_all
    with x Cons False show ?thesis by simp
  qed
qed

lemma well_formed_pair:
  assumes "well_formed_segments read segs" and "s \<in> set segs" and "e \<in> set segs"
    and "s = e \<or> subseq [s, e] segs"
  shows "0 \<le> start s \<and> start s \<le> end' e \<and> end' e \<le> int (length (query_sequence read)) - 1"
proof -
  from assms(1-3) have in_range: "0 \<le> start s" "start s \<le> end' s" "start e \<le> end' e"
      "end' e < int (length (query_sequence read))"
    by (auto simp: well_formed_segments_def list_all_iff)
  from assms(4) show ?thesis
  proof
    assume "s = e"
    with in_range show ?thesis by simp
  next
    assume "subseq [s, e] segs"
    with assms(1) have "well_formed_segments read [s, e]" by (rule well_formed_subseq)
    then have "end' s < start e" by (simp add: well_formed_segments_def)
    with in_range show ?thesis by simp
  qed
qed

lemma simple_emit_kept_contained:
  assumes "\<forall>x \<in> set found. \<exists>di s e. x = (di, Some s, Some s, e)
              \<and> 0 \<le> start s \<and> start s \<le> end' e \<and> end' e \<le> len - 1"
    and "sorted (map start_key found)"
    and "0 \<le> cur" and "\<forall>x \<in> set found. cur \<le> start_key x" and "cur \<le> len - 1"
  shows "\<forall>c \<in> set (fst (simple_emit True ds segs len cur prev found)).
           0 \<le> call_start_coord c \<and> call_start_coord c \<le> call_end_coord c
           \<and> call_end_coord c \<le> len - 1"
  using assms
proof (induction found arbitrary: cur prev)
  case Nil
  then show ?case by simp
next
  case (Cons x found)
  from Cons.prems(1) obtain di s e where x: "x = (di, Some s, Some s, e)"
    and rng: "0 \<le> start s" "start s \<le> end' e" "end' e \<le> len - 1"
    by auto
  from Cons.prems(4) x have cur: "cur \<le> start s" by simp
  have "\<forall>c \<in> set (fst (simple_emit True ds segs len (start s) (join ''/'' (ds ! di)) found)).
           0 \<le> call_start_coord c \<and> call_start_coord c \<le> call_end_coord c
           \<and> call_end_coord c \<le> len - 1"
  proof (rule Cons.IH)
    show "\<forall>x \<in> set found. \<exists>di s e. x = (di, Some s, Some s, e)
              \<and> 0 \<le> start s \<and> start s \<le> end' e \<and> end' e \<le> len - 1"
      using Cons.prems(1) by simp
    show "sorted (map start_key found)" using Cons.prems(2) by simp
    show "0 \<le> start s" by (rule rng(1))
    show "\<forall>y \<in> set found. start s \<le> start_key y"
      using Cons.prems(2) x by auto
    show "start s \<le> len - 1" using rng by simp
  qed
  with cur rng Cons.prems(3) show ?case
    by (auto simp: x attr_start_def Let_def split: prod.splits)
qed

lemma simple_split_kept_contained:
  assumes "well_formed_segments read segments" and "query_sequence read \<noteq> []"
    and "c \<in> set (fst (simple_split array_element_structure read segments True))"
  shows "contained read c"
proof (cases "simple_delimiters array_element_structure")
  case (Inl e)
  with assms(3) show ?thesis by (simp add: simple_split_def)
next
  case (Inr ds)
  let ?found = "seg_delimiters (simple_scan ds segments)"
  let ?sorted = "sort_key start_key ?found"
  let ?len = "int (length (query_sequence read))"
  have entries: "\<forall>x \<in> set ?found. \<exists>di s e. x = (di, Some s, Some s, e)
              \<and> 0 \<le> start s \<and> start s \<le> end' e \<and> end' e \<le> ?len - 1"
  proof
    fix x assume "x \<in> set ?found"
    from found_entries_ok [OF this] obtain di s e where
      "x = (di, Some s, Some s, e)" "s \<in> set segments" "e \<in> set segments"
      "s = e \<or> subseq [s, e] segments"
      by blast
    with well_formed_pair [OF assms(1), of s e]
    show "\<exists>di s e. x = (di, Some s, Some s, e)
              \<and> 0 \<le> start s \<and> start s \<le> end' e \<and> end' e \<le> ?len - 1"
      by blast
  qed
  then have no_none: "\<not> list_ex (\<lambda>(di, start_seg, end_seg_tuple). start_seg = None) ?found"
    by (fastforce simp: list_ex_iff)
  have "\<forall>c \<in> set (fst (simple_emit True ds segments ?len 0 ''START'' ?sorted)).
           0 \<le> call_start_coord c \<and> call_start_coord c \<le> call_end_coord c
           \<and> call_end_coord c \<le> ?len - 1"
  proof (rule simple_emit_kept_contained)
    show "\<forall>x \<in> set ?sorted. \<exists>di s e. x = (di, Some s, Some s, e)
              \<and> 0 \<le> start s \<and> start s \<le> end' e \<and> end' e \<le> ?len - 1"
      using entries by simp
    show "sorted (map start_key ?sorted)" by (rule sorted_sort_key)
    show "(0::int) \<le> 0" by simp
    show "\<forall>x \<in> set ?sorted. 0 \<le> start_key x"
      using entries by fastforce
    show "0 \<le> ?len - 1" using assms(2) by (cases "query_sequence read") simp_all
  qed
  moreover from assms(3) Inr no_none
  have "c \<in> set (fst (simple_emit True ds segments ?len 0 ''START'' ?sorted))"
    by (auto simp: simple_split_def Let_def split: prod.splits option.splits)
  ultimately show ?thesis by (simp add: contained_def)
qed

lemma bounded_split_kept_contained:
  assumes "well_formed_segments read segments"
    and "c \<in> set (fst (bounded_split array_element_structure segments True))"
  shows "contained read c"
proof -
  from assms(2) have "c \<in> set (fst (bounded_emit True (bounded_scan array_element_structure segments)))"
    by (auto simp: bounded_split_def Let_def split: prod.splits option.splits)
  from bounded_emit_member [OF this] obtain st where
    st: "st \<in> set (bounded_scan array_element_structure segments)"
      "enough True (delimiter_segments st)" "c = bounded_call True (delimiter_segments st)"
    by blast
  from st(2) have ne: "delimiter_segments st \<noteq> []" by (auto simp: enough_def)
  from bounded_captured_well_formed [OF st(1) assms(1)]
  have "well_formed_segments read (delimiter_segments st)" .
  from well_formed_ends [OF this ne] show ?thesis
    by (simp add: contained_def st(3) bounded_call_def)
qed

lemma split_nonempty: "split c s \<noteq> []"
  by (induction s) (auto split: list.splits)

lemma join_split: "join [c] (split c s) = s"
proof (induction s)
  case Nil
  show ?case by simp
next
  case (Cons x s)
  obtain w ws where ws: "split c s = w # ws"
    using split_nonempty [of c s] by (cases "split c s") auto
  with Cons show ?case by (cases ws) auto
qed

lemma split_no_separator: "t \<in> set (split c s) \<Longrightarrow> c \<notin> set t"
  by (induction s arbitrary: t) (auto split: if_splits list.splits)

lemma traverse_all:
  assumes "\<forall>x \<in> set xs. \<not> isl (f x)"
  shows "traverse f xs = Inr (map (\<lambda>x. projr (f x)) xs)"
  using assms
proof (induction xs)
  case Nil
  show ?case by simp
next
  case (Cons x xs)
  then obtain y where "f x = Inr y" by (cases "f x") auto
  with Cons show ?case by (simp add: bind_error_def)
qed

lemma traverse_some:
  assumes "\<exists>x \<in> set xs. isl (f x)"
  shows "isl (traverse f xs)"
  using assms
proof (induction xs)
  case Nil
  then show ?case by simp
next
  case (Cons x xs)
  show ?case
  proof (cases "f x")
    case (Inl e)
    then show ?thesis by (simp add: bind_error_def)
  next
    case (Inr y)
    with Cons.prems have "\<exists>x \<in> set xs. isl (f x)" by auto
    from Cons.IH [OF this] Inr show ?thesis
      by (cases "traverse f xs") (simp_all add: bind_error_def)
  qed
qed

section \<open>Claims about the writer\<close>



section \<open>Claims about bounded region splitting\<close>

text \<open>
  C3. With the single element template \<open>[L1, L2, L3]\<close>, whatever the coordinates of the
  segments: the segment list \<open>[L1, L2, L3]\<close> completes the template with all three
  segments captured and score 6, and the segment list \<open>[L1, L3]\<close> completes it with two
  segments captured and score 3, the second by the peek-ahead jump of one label. In both
  cases, for either setting of keep-delimiters, one element is written and the value
  returned is 1.
\<close>

theorem bounded_example_scores:
  "bounded_scan [[''L1'', ''L2'', ''L3'']]
       [mk_segment ''L1'' a1 b1, mk_segment ''L2'' a2 b2, mk_segment ''L3'' a3 b3]
     = [\<lparr>match_matrix = 3,
         delimiter_segments =
           [mk_segment ''L1'' a1 b1, mk_segment ''L2'' a2 b2, mk_segment ''L3'' a3 b3],
         delimiter_found = True, delimiter_score = 6\<rparr>]
   \<and> bounded_scan [[''L1'', ''L2'', ''L3'']] [mk_segment ''L1'' a1 b1, mk_segment ''L3'' a3 b3]
     = [\<lparr>match_matrix = 3,
         delimiter_segments = [mk_segment ''L1'' a1 b1, mk_segment ''L3'' a3 b3],
         delimiter_found = True, delimiter_score = 3\<rparr>]
   \<and> peek (mk_segment ''L3'' a3 b3) [''L1'', ''L2'', ''L3''] 1 = Some 1
   \<and> snd (bounded_split [[''L1'', ''L2'', ''L3'']]
            [mk_segment ''L1'' a1 b1, mk_segment ''L2'' a2 b2, mk_segment ''L3'' a3 b3] keep) = Inr 1
   \<and> snd (bounded_split [[''L1'', ''L2'', ''L3'']]
            [mk_segment ''L1'' a1 b1, mk_segment ''L3'' a3 b3] keep) = Inr 1
   \<and> length (fst (bounded_split [[''L1'', ''L2'', ''L3'']]
            [mk_segment ''L1'' a1 b1, mk_segment ''L2'' a2 b2, mk_segment ''L3'' a3 b3] keep)) = 1
   \<and> length (fst (bounded_split [[''L1'', ''L2'', ''L3'']]
            [mk_segment ''L1'' a1 b1, mk_segment ''L3'' a3 b3] keep)) = 1"
proof -
  let ?s1 = "mk_segment ''L1'' a1 b1" and ?s2 = "mk_segment ''L2'' a2 b2"
    and ?s3 = "mk_segment ''L3'' a3 b3"
  have full: "bounded_scan [[''L1'', ''L2'', ''L3'']] [?s1, ?s2, ?s3]
     = [\<lparr>match_matrix = 3, delimiter_segments = [?s1, ?s2, ?s3],
         delimiter_found = True, delimiter_score = 6\<rparr>]"
    by (simp add: bounded_scan_def bounded_match_seg_def bounded_init_def py_index_def
          mk_segment_def match_val_def indel_val_def peek_def Let_def)
  have gap: "bounded_scan [[''L1'', ''L2'', ''L3'']] [?s1, ?s3]
     = [\<lparr>match_matrix = 3, delimiter_segments = [?s1, ?s3],
         delimiter_found = True, delimiter_score = 3\<rparr>]"
    by (simp add: bounded_scan_def bounded_match_seg_def bounded_init_def py_index_def
          mk_segment_def match_val_def indel_val_def peek_def Let_def upt_rec)
  have pk: "peek ?s3 [''L1'', ''L2'', ''L3''] 1 = Some 1"
    by (simp add: peek_def mk_segment_def upt_rec)
  have e3: "enough keep [?s1, ?s2, ?s3]" and e2: "enough keep [?s1, ?s3]"
    by (simp_all add: enough_def)
  show ?thesis
    using pk
    by (simp add: full gap bounded_split_def bounded_element_enough [OF e3]
          bounded_element_enough [OF e2])
qed

theorem bounded_example_scores_witness:
  "map delimiter_score (bounded_scan [[''L1'', ''L2'', ''L3'']]
       [mk_segment ''L1'' 0 1, mk_segment ''L2'' 2 4, mk_segment ''L3'' 5 7]) = [6]
   \<and> map delimiter_score (bounded_scan [[''L1'', ''L2'', ''L3'']]
       [mk_segment ''L1'' 0 1, mk_segment ''L3'' 5 7]) = [3]
   \<and> map delimiter_found (bounded_scan [[''L1'', ''L2'', ''L3'']]
       [mk_segment ''L1'' 0 1, mk_segment ''L3'' 5 7]) = [True]
   \<and> snd (bounded_split [[''L1'', ''L2'', ''L3'']]
       [mk_segment ''L1'' 0 1, mk_segment ''L3'' 5 7] True) = Inr 1"
  using bounded_example_scores [of 0 1 2 4 5 7 True]
  by simp






section \<open>Claims about simple splitting\<close>

text \<open>
  C1 (as amended). Simple splitting of the segment list \<open>[A, B, x, x, Y, Z]\<close> with the
  delimiters discarded, where A starts no later than Y. When the delimiter windows are
  \<open>(A, B)\<close> and \<open>(Y, Z)\<close>, three elements are written: \<open>[0, A.start - 1]\<close>,
  \<open>[B.end + 1, Y.start - 1]\<close> and \<open>[Z.end + 1, len - 1]\<close>, and 2 is returned. A structure
  of two element templates, the first ending in A, B and the second starting with Y, Z,
  has the single window \<open>(A, B, Y, Z)\<close>, which the list does not match: the only element
  written is the whole read \<open>[0, len - 1]\<close>, and 0 is returned.
\<close>

theorem simple_split_example:
  assumes "simple_delimiters array_element_structure = Inr [[''A'', ''B''], [''Y'', ''Z'']]"
    and "a0 \<le> y0"
    and "segments = [mk_segment ''A'' a0 a1, mk_segment ''B'' b0 b1, mk_segment ''x'' c0 c1,
                     mk_segment ''x'' d0 d1, mk_segment ''Y'' y0 y1, mk_segment ''Z'' z0 z1]"
  shows "simple_split array_element_structure read segments False
           = ([plain_call 0 (a0 - 1) b1 segments ''A/B'' ''START'',
               plain_call (b1 + 1) (y0 - 1) z1 segments ''Y/Z'' ''A/B'',
               plain_call (z1 + 1) (int (length (query_sequence read)) - 1)
                 (int (length (query_sequence read)) - 1) segments ''END'' ''Y/Z''], Inr 2)
       \<and> simple_split [t0 @ [''A'', ''B''], ''Y'' # ''Z'' # t1] read segments False
           = ([plain_call 0 (int (length (query_sequence read)) - 1)
                 (int (length (query_sequence read)) - 1) segments ''END'' ''START''], Inr 0)"
proof -
  have scan2: "simple_scan [[''A'', ''B''], [''Y'', ''Z'']] segments
      = [\<lparr>match_index = 2, start_segment = Some (mk_segment ''A'' a0 a1),
          end_segment_tuple = Some (Some (mk_segment ''A'' a0 a1), mk_segment ''B'' b0 b1)\<rparr>,
         \<lparr>match_index = 2, start_segment = Some (mk_segment ''Y'' y0 y1),
          end_segment_tuple = Some (Some (mk_segment ''Y'' y0 y1), mk_segment ''Z'' z0 z1)\<rparr>]"
    unfolding assms(3)
    by (simp add: simple_scan_def simple_match_seg_def simple_init_def py_index_def
          mk_segment_def Let_def)
  have found2: "seg_delimiters (simple_scan [[''A'', ''B''], [''Y'', ''Z'']] segments)
      = [(0, Some (mk_segment ''A'' a0 a1), Some (mk_segment ''A'' a0 a1), mk_segment ''B'' b0 b1),
         (1, Some (mk_segment ''Y'' y0 y1), Some (mk_segment ''Y'' y0 y1), mk_segment ''Z'' z0 z1)]"
    unfolding scan2 by (simp add: seg_delimiters_def map_filter_simps)
  have first: "simple_split array_element_structure read segments False
           = ([plain_call 0 (a0 - 1) b1 segments ''A/B'' ''START'',
               plain_call (b1 + 1) (y0 - 1) z1 segments ''Y/Z'' ''A/B'',
               plain_call (z1 + 1) (int (length (query_sequence read)) - 1)
                 (int (length (query_sequence read)) - 1) segments ''END'' ''Y/Z''], Inr 2)"
    using assms(2)
    by (simp add: simple_split_def assms(1) found2 attr_start_def plain_call_def mk_segment_def
          Let_def)
  have scan1: "simple_scan [[''A'', ''B'', ''Y'', ''Z'']] segments
      = [\<lparr>match_index = 0, start_segment = None, end_segment_tuple = None\<rparr>]"
    unfolding assms(3)
    by (simp add: simple_scan_def simple_match_seg_def simple_init_def py_index_def
          mk_segment_def Let_def)
  have found1: "seg_delimiters (simple_scan [[''A'', ''B'', ''Y'', ''Z'']] segments) = []"
    unfolding scan1 by (simp add: seg_delimiters_def map_filter_simps)
  have second: "simple_split [t0 @ [''A'', ''B''], ''Y'' # ''Z'' # t1] read segments False
           = ([plain_call 0 (int (length (query_sequence read)) - 1)
                 (int (length (query_sequence read)) - 1) segments ''END'' ''START''], Inr 0)"
    by (simp add: simple_split_def simple_delimiters_two found1 plain_call_def)
  from first second show ?thesis by simp
qed

text \<open>
  On the example read of 8 bases with B ending at 1 and Y starting at 5: the two-template
  structure yields the one element \<open>[0, 7]\<close>, outside \<open>[2, 4]\<close>; the windows \<open>(A, B)\<close> and
  \<open>(Y, Z)\<close> yield three elements.
\<close>

theorem simple_split_example_counterexample:
  "map (\<lambda>c. (call_start_coord c, call_end_coord c))
       (fst (simple_split [[''A'', ''B''], [''Y'', ''Z'']] example_read example_segments6 False))
     = [(0, 7)]
   \<and> map (\<lambda>c. (call_start_coord c, call_end_coord c))
       (fst (simple_split [[''A''], [''B''], [''Y'', ''Z'']] example_read example_segments6 False))
     = [(0, - 1), (2, 4), (7, 7)]"
  by code_simp

theorem simple_split_example_witness:
  "simple_split [[''A''], [''B''], [''Y'', ''Z'']] example_read example_segments6 False
     = ([plain_call 0 (- 1) 1 example_segments6 ''A/B'' ''START'',
         plain_call 2 4 6 example_segments6 ''Y/Z'' ''A/B'',
         plain_call 7 7 7 example_segments6 ''END'' ''Y/Z''], Inr 2)
   \<and> simple_split [[''q'', ''A'', ''B''], [''Y'', ''Z'', ''r'']] example_read example_segments6 False
     = ([plain_call 0 7 7 example_segments6 ''END'' ''START''], Inr 0)"
proof -
  have d: "simple_delimiters [[''A''], [''B''], [''Y'', ''Z'']] = Inr [[''A'', ''B''], [''Y'', ''Z'']]"
    by (simp add: simple_delimiters_def py_index_def py_slice_def)
  have le: "(0::int) \<le> 5" by simp
  show ?thesis
    using simple_split_example [OF d le, of example_segments6 0 1 1 2 2 3 4 5 6 6 example_read
        "[''q'']" "[''r'']"]
    by (simp add: example_segments6_def example_read_def)
qed



section \<open>Claims about both modes\<close>

text \<open>
  C8. A completed delimiter is final. In simple mode a state whose match counter has
  reached the window length is returned unchanged by the loop body, so once a window has
  recorded its boundary pair, the state of that window after any further segments is the
  same. In bounded mode a state marked found is returned unchanged, so the counter,
  captured segments and score of a found template are the same after any further
  segments.
\<close>

theorem completed_state_is_final:
  "(match_index st = length d \<longrightarrow> simple_match_seg seg d st = st)
   \<and> (delimiter_found bst \<longrightarrow> bounded_match_seg seg d bst = bst)
   \<and> (i < length delimiters
        \<and> match_index (simple_scan delimiters xs ! i) = length (delimiters ! i)
      \<longrightarrow> simple_scan delimiters (xs @ ys) ! i = simple_scan delimiters xs ! i)
   \<and> (i < length delimiters \<and> end_segment_tuple (simple_scan delimiters xs ! i) \<noteq> None
      \<longrightarrow> simple_scan delimiters (xs @ ys) ! i = simple_scan delimiters xs ! i)
   \<and> (i < length delimiters \<and> delimiter_found (bounded_scan delimiters xs ! i)
      \<longrightarrow> bounded_scan delimiters (xs @ ys) ! i = bounded_scan delimiters xs ! i)"
  using simple_match_seg_complete bounded_match_seg_found simple_scan_append_complete
    simple_recorded_complete bounded_scan_append_found
  by blast

theorem completed_state_is_final_witness:
  "simple_match_seg (mk_segment ''x'' 4 5) [''A'', ''B'']
       \<lparr>match_index = 2, start_segment = Some (mk_segment ''A'' 0 1),
        end_segment_tuple = Some (Some (mk_segment ''A'' 0 1), mk_segment ''B'' 2 3)\<rparr>
     = \<lparr>match_index = 2, start_segment = Some (mk_segment ''A'' 0 1),
        end_segment_tuple = Some (Some (mk_segment ''A'' 0 1), mk_segment ''B'' 2 3)\<rparr>
   \<and> bounded_match_seg (mk_segment ''x'' 4 5) [''A'', ''B'']
       \<lparr>match_matrix = 2, delimiter_segments = [mk_segment ''A'' 0 1, mk_segment ''B'' 2 3],
        delimiter_found = True, delimiter_score = 4\<rparr>
     = \<lparr>match_matrix = 2, delimiter_segments = [mk_segment ''A'' 0 1, mk_segment ''B'' 2 3],
        delimiter_found = True, delimiter_score = 4\<rparr>
   \<and> simple_scan [[''A'', ''B'']]
       ([mk_segment ''A'' 0 1, mk_segment ''B'' 2 3] @ [mk_segment ''x'' 4 5, mk_segment ''A'' 6 7]) ! 0
     = \<lparr>match_index = 2, start_segment = Some (mk_segment ''A'' 0 1),
        end_segment_tuple = Some (Some (mk_segment ''A'' 0 1), mk_segment ''B'' 2 3)\<rparr>
   \<and> bounded_scan [[''A'', ''B'']]
       ([mk_segment ''A'' 0 1, mk_segment ''B'' 2 3] @ [mk_segment ''x'' 4 5, mk_segment ''A'' 6 7]) ! 0
     = \<lparr>match_matrix = 2, delimiter_segments = [mk_segment ''A'' 0 1, mk_segment ''B'' 2 3],
        delimiter_found = True, delimiter_score = 4\<rparr>"
proof -
  have s: "simple_scan [[''A'', ''B'']] [mk_segment ''A'' 0 1, mk_segment ''B'' 2 3]
     = [\<lparr>match_index = 2, start_segment = Some (mk_segment ''A'' 0 1),
         end_segment_tuple = Some (Some (mk_segment ''A'' 0 1), mk_segment ''B'' 2 3)\<rparr>]"
    by (simp add: simple_scan_def simple_match_seg_def simple_init_def py_index_def
          mk_segment_def Let_def)
  have b: "bounded_scan [[''A'', ''B'']] [mk_segment ''A'' 0 1, mk_segment ''B'' 2 3]
     = [\<lparr>match_matrix = 2, delimiter_segments = [mk_segment ''A'' 0 1, mk_segment ''B'' 2 3],
         delimiter_found = True, delimiter_score = 4\<rparr>]"
    by (simp add: bounded_scan_def bounded_match_seg_def bounded_init_def py_index_def
          mk_segment_def match_val_def Let_def)
  show ?thesis
    using completed_state_is_final [of
        "\<lparr>match_index = 2, start_segment = Some (mk_segment ''A'' 0 1),
          end_segment_tuple = Some (Some (mk_segment ''A'' 0 1), mk_segment ''B'' 2 3)\<rparr>"
        "[''A'', ''B'']" "mk_segment ''x'' 4 5"
        "\<lparr>match_matrix = 2, delimiter_segments = [mk_segment ''A'' 0 1, mk_segment ''B'' 2 3],
          delimiter_found = True, delimiter_score = 4\<rparr>"
        0 "[[''A'', ''B'']]"
        "[mk_segment ''A'' 0 1, mk_segment ''B'' 2 3]"
        "[mk_segment ''x'' 4 5, mk_segment ''A'' 6 7]"]
    by (simp add: s b)
qed

text \<open>
  C2 (as amended). For every non-empty read whose segment list is well formed, in both
  splitting modes with the delimiters kept: every writer call has
  \<open>0 \<le> start_coord \<le> end_coord \<le> len(sequence) - 1\<close>, one record is written per call, and
  the sequence of that record has length \<open>end_coord - start_coord + 1\<close>.
\<close>

theorem kept_delimiters_containment:
  assumes "well_formed_segments read segments" and "query_sequence read \<noteq> []"
  shows "\<exists>recs calls.
      calls = fst (if do_simple_splitting
                   then simple_split array_element_structure read segments True
                   else bounded_split array_element_structure segments True)
    \<and> fst (write_segmented_read to_tag SEGMENTS_TAG array_element_structure read segments
              do_simple_splitting True bam_out) = bam_out @ recs
    \<and> length recs = length calls
    \<and> (\<forall>i < length calls.
          0 \<le> call_start_coord (calls ! i)
          \<and> call_start_coord (calls ! i) \<le> call_end_coord (calls ! i)
          \<and> call_end_coord (calls ! i) \<le> int (length (query_sequence read)) - 1
          \<and> int (length (query_sequence (recs ! i)))
              = call_end_coord (calls ! i) - call_start_coord (calls ! i) + 1)"
proof -
  let ?calls = "fst (if do_simple_splitting
                   then simple_split array_element_structure read segments True
                   else bounded_split array_element_structure segments True)"
  from write_segmented_read_records [of to_tag SEGMENTS_TAG array_element_structure read segments
      do_simple_splitting True bam_out]
  obtain recs where
    recs: "fst (write_segmented_read to_tag SEGMENTS_TAG array_element_structure read segments
                  do_simple_splitting True bam_out) = bam_out @ recs"
      "map query_sequence recs
         = map (\<lambda>c. py_slice (query_sequence read) (call_start_coord c) (call_end_coord c + 1))
             ?calls"
    by blast
  from recs(2) have len: "length recs = length ?calls" by (metis length_map)
  have each: "0 \<le> call_start_coord (?calls ! i)
          \<and> call_start_coord (?calls ! i) \<le> call_end_coord (?calls ! i)
          \<and> call_end_coord (?calls ! i) \<le> int (length (query_sequence read)) - 1
          \<and> int (length (query_sequence (recs ! i)))
              = call_end_coord (?calls ! i) - call_start_coord (?calls ! i) + 1"
    if i: "i < length ?calls" for i
  proof -
    from i have "?calls ! i \<in> set ?calls" by (rule nth_mem)
    then have "contained read (?calls ! i)"
      using simple_split_kept_contained [OF assms] bounded_split_kept_contained [OF assms(1)]
      by (cases do_simple_splitting) simp_all
    then have c: "0 \<le> call_start_coord (?calls ! i)"
      "call_start_coord (?calls ! i) \<le> call_end_coord (?calls ! i)"
      "call_end_coord (?calls ! i) \<le> int (length (query_sequence read)) - 1"
      by (simp_all add: contained_def)
    have "query_sequence (recs ! i) = map query_sequence recs ! i"
      using i len by simp
    also have "\<dots> = py_slice (query_sequence read) (call_start_coord (?calls ! i))
                        (call_end_coord (?calls ! i) + 1)"
      unfolding recs(2) using i by simp
    finally have "int (length (query_sequence (recs ! i)))
        = call_end_coord (?calls ! i) - call_start_coord (?calls ! i) + 1"
      using c by (simp add: length_py_slice_inclusive)
    with c show ?thesis by simp
  qed
  from recs(1) len each show ?thesis by blast
qed

text \<open>
  With the delimiters discarded the containment fails on a well-formed segment list: in
  simple mode the element before a delimiter that starts at index 0 is written with
  \<open>start_coord = 0\<close> and \<open>end_coord = -1\<close>, and in bounded mode a template with two
  captured segments is written with \<open>start_coord = 1\<close> and \<open>end_coord = 0\<close>.
\<close>

theorem kept_delimiters_containment_counterexample:
  "well_formed_segments example_read example_segments6
   \<and> map (\<lambda>a. (query_name a, length (query_sequence a)))
       (fst (write_segmented_read name ''SG'' [[''A''], [''B''], [''Y'', ''Z'']] example_read
               example_segments6 True False []))
     = [(''r_0--1_START-A/B'', 0), (''r_2-4_A/B-Y/Z'', 3), (''r_7-7_Y/Z-END'', 1)]
   \<and> map (\<lambda>a. (query_name a, length (query_sequence a)))
       (fst (write_segmented_read name ''SG'' [[''A'', ''B'']] example_read
               example_segments6 False False []))
     = [(''r_1-0_A-B'', 0)]"
  by code_simp

theorem kept_delimiters_containment_witness:
  "map (\<lambda>c. (call_start_coord c, call_end_coord c))
       (fst (simple_split [[''A''], [''B''], [''Y'', ''Z'']] example_read example_segments6 True))
     = [(0, 1), (0, 6), (5, 7)]
   \<and> map (\<lambda>a. length (query_sequence a))
       (fst (write_segmented_read name ''SG'' [[''A''], [''B''], [''Y'', ''Z'']] example_read
               example_segments6 True True []))
     = [2, 7, 3]"
proof -
  have wf: "well_formed_segments example_read example_segments6"
    by code_simp
  have ne: "query_sequence example_read \<noteq> []"
    by (simp add: example_read_def)
  have calls: "map (\<lambda>c. (call_start_coord c, call_end_coord c))
       (fst (simple_split [[''A''], [''B''], [''Y'', ''Z'']] example_read example_segments6 True))
     = [(0, 1), (0, 6), (5, 7)]"
    by code_simp
  from kept_delimiters_containment [OF wf ne, of True "[[''A''], [''B''], [''Y'', ''Z'']]"
      name "''SG''" "[]"]
  obtain recs where
    r: "fst (write_segmented_read name ''SG'' [[''A''], [''B''], [''Y'', ''Z'']] example_read
               example_segments6 True True []) = recs"
      "length recs = length (fst (simple_split [[''A''], [''B''], [''Y'', ''Z'']] example_read
                                    example_segments6 True))"
      "\<forall>i < length (fst (simple_split [[''A''], [''B''], [''Y'', ''Z'']] example_read
                            example_segments6 True)).
          int (length (query_sequence (recs ! i)))
              = call_end_coord (fst (simple_split [[''A''], [''B''], [''Y'', ''Z'']] example_read
                                       example_segments6 True) ! i)
                - call_start_coord (fst (simple_split [[''A''], [''B''], [''Y'', ''Z'']] example_read
                                       example_segments6 True) ! i) + 1"
    by auto
  from calls obtain c0 c1 c2 where
    cs: "fst (simple_split [[''A''], [''B''], [''Y'', ''Z'']] example_read example_segments6 True)
          = [c0, c1, c2]"
      "call_start_coord c0 = 0" "call_end_coord c0 = 1"
      "call_start_coord c1 = 0" "call_end_coord c1 = 6"
      "call_start_coord c2 = 5" "call_end_coord c2 = 7"
    by auto
  from r(2) cs(1) obtain a0 a1 a2 where recs: "recs = [a0, a1, a2]"
    by (auto simp: length_Suc_conv)
  from r(3) [unfolded cs(1)] have "int (length (query_sequence (recs ! 0))) = 2"
    "int (length (query_sequence (recs ! 1))) = 7" "int (length (query_sequence (recs ! 2))) = 3"
    using cs(2-) by simp_all
  with recs r(1) calls show ?thesis by simp
qed

section \<open>Claims about the segment decoder\<close>

text \<open>
  C9 (as amended). The segment decoder raises the missing-tag error when the read has
  no segments tag. When the read has the tag, its tokens are the pieces of the tag
  between \<open>|\<close>; if every token decodes, the decoder returns the serialised read together
  with the decoded segments in token order, and if some token does not decode, the
  decoder fails.
\<close>

theorem get_segments_result:
  "(map_of (tags read) SEGMENTS_TAG = None
      \<longrightarrow> get_segments from_tag to_string SEGMENTS_TAG read = Inl KeyError)
   \<and> (\<forall>tag. map_of (tags read) SEGMENTS_TAG = Some tag \<longrightarrow>
         join ''|'' (split (CHR ''|'') tag) = tag
       \<and> list_all (\<lambda>t. CHR ''|'' \<notin> set t) (split (CHR ''|'') tag)
       \<and> ((\<forall>t \<in> set (split (CHR ''|'') tag). \<not> isl (from_tag t))
            \<longrightarrow> get_segments from_tag to_string SEGMENTS_TAG read
                  = Inr (to_string read, map (\<lambda>t. projr (from_tag t)) (split (CHR ''|'') tag)))
       \<and> ((\<exists>t \<in> set (split (CHR ''|'') tag). isl (from_tag t))
            \<longrightarrow> isl (get_segments from_tag to_string SEGMENTS_TAG read)))"
proof (intro conjI impI allI)
  assume "map_of (tags read) SEGMENTS_TAG = None"
  then show "get_segments from_tag to_string SEGMENTS_TAG read = Inl KeyError"
    by (simp add: get_segments_def get_tag_def bind_error_def)
next
  fix tag
  show "join ''|'' (split (CHR ''|'') tag) = tag" by (rule join_split)
next
  fix tag
  show "list_all (\<lambda>t. CHR ''|'' \<notin> set t) (split (CHR ''|'') tag)"
    using split_no_separator [of _ "CHR ''|''" tag] by (auto simp: list_all_iff)
next
  fix tag
  assume tag: "map_of (tags read) SEGMENTS_TAG = Some tag"
    and ok: "\<forall>t \<in> set (split (CHR ''|'') tag). \<not> isl (from_tag t)"
  from traverse_all [OF ok] tag
  show "get_segments from_tag to_string SEGMENTS_TAG read
          = Inr (to_string read, map (\<lambda>t. projr (from_tag t)) (split (CHR ''|'') tag))"
    by (simp add: get_segments_def get_tag_def bind_error_def)
next
  fix tag
  assume tag: "map_of (tags read) SEGMENTS_TAG = Some tag"
    and bad: "\<exists>t \<in> set (split (CHR ''|'') tag). isl (from_tag t)"
  from traverse_some [OF bad] tag
  show "isl (get_segments from_tag to_string SEGMENTS_TAG read)"
    by (cases "traverse from_tag (split (CHR ''|'') tag)")
       (simp_all add: get_segments_def get_tag_def bind_error_def)
qed

text \<open>
  A read that has the segments tag and on which the decoder fails: the token \<open>B\<close>, and
  the one token of the empty tag, are not of the shape \<open>label:start-end\<close>.
\<close>

theorem get_segments_result_counterexample:
  "get_tag (tagged_read ''A:0-1|B'') ''SG'' = Inr ''A:0-1|B''
   \<and> get_segments spec_from_tag query_name ''SG'' (tagged_read ''A:0-1|B'') = Inl MalformedToken
   \<and> get_tag (tagged_read '''') ''SG'' = Inr ''''
   \<and> get_segments spec_from_tag query_name ''SG'' (tagged_read '''') = Inl MalformedToken"
  by code_simp

theorem get_segments_result_witness:
  "get_segments spec_from_tag query_name ''SG'' (tagged_read ''A:0-1|B:2-41'')
     = Inr (''r'', [mk_segment ''A'' 0 1, mk_segment ''B'' 2 41])
   \<and> get_segments spec_from_tag query_name ''XX'' (tagged_read ''A:0-1|B:2-41'') = Inl KeyError
   \<and> isl (get_segments spec_from_tag query_name ''SG'' (tagged_read ''A:0-1|B''))"
proof -
  have t1: "map_of (tags (tagged_read ''A:0-1|B:2-41'')) ''SG'' = Some ''A:0-1|B:2-41''"
    and t2: "map_of (tags (tagged_read ''A:0-1|B:2-41'')) ''XX'' = None"
    and t3: "map_of (tags (tagged_read ''A:0-1|B'')) ''SG'' = Some ''A:0-1|B''"
    by (simp_all add: tagged_read_def)
  have s1: "split (CHR ''|'') ''A:0-1|B:2-41'' = [''A:0-1'', ''B:2-41'']"
    and s3: "split (CHR ''|'') ''A:0-1|B'' = [''A:0-1'', ''B'']"
    by simp_all
  have f: "spec_from_tag ''A:0-1'' = Inr (mk_segment ''A'' 0 1)"
    "spec_from_tag ''B:2-41'' = Inr (mk_segment ''B'' 2 41)"
    "spec_from_tag ''B'' = Inl MalformedToken"
    by code_simp+
  have n: "query_name (tagged_read ''A:0-1|B:2-41'') = ''r''"
    by (simp add: tagged_read_def example_read_def)
  show ?thesis
    using get_segments_result [of "tagged_read ''A:0-1|B:2-41''" "''SG''" spec_from_tag query_name]
      get_segments_result [of "tagged_read ''A:0-1|B:2-41''" "''XX''" spec_from_tag query_name]
      get_segments_result [of "tagged_read ''A:0-1|B''" "''SG''" spec_from_tag query_name]
    by (simp add: t1 t2 t3 s1 s3 f n)
qed

end
